theory Spec2Isabelle
  imports Main "HOL-Library.Sublist"
begin

section \<open>Python strings\<close>

text \<open>
  A Python \<open>str\<close> is modelled as a \<open>string\<close>, one \<open>char\<close> per code point, which covers
  the code points below 256. The functions of this section are the string methods that
  \<open>scripts/audit_feature.py\<close> calls, on that range.
\<close>

definition is_space :: "char \<Rightarrow> bool" where
  \<comment> \<open>\<open>str.isspace\<close> on one character, which is also the class \<open>\s\<close> of \<open>re\<close>.\<close>
  "is_space c = (c \<in> set [CHR 0x09, CHR 0x0A, CHR 0x0B, CHR 0x0C, CHR 0x0D, CHR 0x1C,
     CHR 0x1D, CHR 0x1E, CHR 0x1F, CHR 0x20, CHR 0x85, CHR 0xA0])"

definition lower_char :: "char \<Rightarrow> char" where
  "lower_char c = (let n = (of_char c :: nat) in
     if (65 \<le> n \<and> n \<le> 90) \<or> (192 \<le> n \<and> n \<le> 222 \<and> n \<noteq> 215)
     then char_of (n + 32) else c)"

definition lower :: "string \<Rightarrow> string" where
  "lower s = map lower_char s"

definition is_alpha :: "char \<Rightarrow> bool" where
  \<comment> \<open>The ASCII letters.\<close>
  "is_alpha c = (let n = (of_char c :: nat) in (65 \<le> n \<and> n \<le> 90) \<or> (97 \<le> n \<and> n \<le> 122))"

definition upper_char :: "char \<Rightarrow> char" where
  "upper_char c = (let n = (of_char c :: nat) in
     if 97 \<le> n \<and> n \<le> 122 then char_of (n - 32) else c)"

fun title_from :: "bool \<Rightarrow> string \<Rightarrow> string" where
  \<comment> \<open>\<open>str.title\<close> on ASCII text: a letter is put in upper case when the character
      before it is not a letter, in lower case otherwise. It is applied to the keys of
      the mandate checks only.\<close>
  "title_from prev [] = []"
| "title_from prev (c # cs) =
     (if is_alpha c then (if prev then lower_char c else upper_char c) # title_from True cs
      else c # title_from False cs)"

definition title :: "string \<Rightarrow> string" where
  "title s = title_from False s"

definition replace_char :: "char \<Rightarrow> char \<Rightarrow> string \<Rightarrow> string" where
  \<comment> \<open>\<open>s.replace(a, b)\<close> for one-character \<open>a\<close> and \<open>b\<close>.\<close>
  "replace_char a b s = map (\<lambda>c. if c = a then b else c) s"

definition strip :: "string \<Rightarrow> string" where
  "strip s = rev (dropWhile is_space (rev (dropWhile is_space s)))"

definition startswith :: "string \<Rightarrow> string \<Rightarrow> bool" where
  "startswith s p = prefix p s"

definition endswith :: "string \<Rightarrow> string \<Rightarrow> bool" where
  "endswith s p = suffix p s"

fun str_in :: "string \<Rightarrow> string \<Rightarrow> bool" where
  \<comment> \<open>\<open>sub in s\<close>\<close>
  "str_in sub [] = (sub = [])"
| "str_in sub (c # cs) = (prefix sub (c # cs) \<or> str_in sub cs)"

fun str_nat :: "nat \<Rightarrow> string" where
  \<comment> \<open>the decimal digits of a number, as an f-string formats it\<close>
  "str_nat n = (if n < 10 then [char_of (48 + n)]
                else str_nat (n div 10) @ [char_of (48 + n mod 10)])"

fun join :: "string \<Rightarrow> string list \<Rightarrow> string" where
  \<comment> \<open>\<open>sep.join(xs)\<close>\<close>
  "join sep [] = []"
| "join sep [x] = x"
| "join sep (x # y # ys) = x @ sep @ join sep (y # ys)"

function split_from :: "string \<Rightarrow> string \<Rightarrow> string \<Rightarrow> string list" where
  \<comment> \<open>\<open>s.split(sep)\<close> for a non-empty \<open>sep\<close>; the second argument is the piece read so far.\<close>
  "split_from sep cur [] = [cur]"
| "split_from sep cur (c # cs) =
     (if sep \<noteq> [] \<and> prefix sep (c # cs)
      then cur # split_from sep [] (drop (length sep) (c # cs))
      else split_from sep (cur @ [c]) cs)"
  by pat_completeness auto

termination
  by (relation "measure (\<lambda>(sep, cur, s). length s)") (auto simp: neq_Nil_conv)

definition split :: "string \<Rightarrow> string \<Rightarrow> string list" where
  "split s sep = split_from sep [] s"

definition is_linebreak :: "char \<Rightarrow> bool" where
  \<comment> \<open>the line boundaries of \<open>str.splitlines\<close>\<close>
  "is_linebreak c = (c \<in> set [CHR 0x0A, CHR 0x0B, CHR 0x0C, CHR 0x0D, CHR 0x1C, CHR 0x1D,
     CHR 0x1E, CHR 0x85])"

fun splitlines_from :: "string \<Rightarrow> string \<Rightarrow> string list" where
  \<comment> \<open>\<open>s.splitlines()\<close>: \<open>\r\n\<close> is one boundary, and no empty line follows the last
      boundary.\<close>
  "splitlines_from cur [] = (if cur = [] then [] else [cur])"
| "splitlines_from cur [c] = (if is_linebreak c then [cur] else [cur @ [c]])"
| "splitlines_from cur (c # d # cs) =
     (if c = CHR 0x0D \<and> d = CHR 0x0A then cur # splitlines_from [] cs
      else if is_linebreak c then cur # splitlines_from [] (d # cs)
      else splitlines_from (cur @ [c]) (d # cs))"

definition splitlines :: "string \<Rightarrow> string list" where
  "splitlines s = splitlines_from [] s"

definition dirname :: "string \<Rightarrow> string" where
  \<comment> \<open>\<open>os.path.dirname\<close> of \<open>posixpath\<close>: the text up to the last \<open>/\<close>, with trailing
      slashes removed unless it consists of slashes only.\<close>
  "dirname p =
     (let head = rev (dropWhile (\<lambda>c. c \<noteq> CHR ''/'') (rev p))
      in if head \<noteq> [] \<and> \<not> list_all (\<lambda>c. c = CHR ''/'') head
         then rev (dropWhile (\<lambda>c. c = CHR ''/'') (rev head)) else head)"

datatype py_error = IndexError | OSError | UnicodeDecodeError

section \<open>The data of the auditor\<close>

datatype verdict = PASS | FAIL | WARNING | NA

fun verdict_str :: "verdict \<Rightarrow> string" where
  "verdict_str PASS = ''PASS''"
| "verdict_str FAIL = ''FAIL''"
| "verdict_str WARNING = ''WARNING''"
| "verdict_str NA = ''N/A''"

text \<open>One entry of \<open>self.files\<close>, as \<open>scan_files\<close> builds it.\<close>

record source_file =
  path :: string
  rel_path :: string
  name :: string
  content :: string
  lines :: nat
  line_content :: "string list"

text \<open>The dictionaries of \<open>__init__\<close> have fixed keys, so they are records.\<close>

record stats_rec =
  entity_registry :: verdict
  dependency_manifest :: verdict
  sacred_mandate :: verdict
  performance :: verdict
  naming :: verdict
  feature_bleed :: "string list"

record mandate_rec =
  integer_cents :: verdict
  sync_integrity :: verdict
  soft_deletes :: verdict
  auth_abstraction :: verdict

record performance_rec =
  react_compiler :: verdict
  re_render :: verdict

record auditor =
  feature_name :: string
  files :: "source_file list"
  issues :: "string list"
  stats :: stats_rec
  mandate_checks :: mandate_rec
  performance_checks :: performance_rec

definition init :: "string \<Rightarrow> auditor" where
  \<comment> \<open>\<open>FeatureAuditor.__init__\<close>\<close>
  "init fname =
     \<lparr> feature_name = fname, files = [], issues = [],
       stats = \<lparr> entity_registry = PASS, dependency_manifest = PASS, sacred_mandate = PASS,
                 performance = PASS, naming = PASS, feature_bleed = [] \<rparr>,
       mandate_checks = \<lparr> integer_cents = NA, sync_integrity = NA, soft_deletes = NA,
                          auth_abstraction = NA \<rparr>,
       performance_checks = \<lparr> react_compiler = PASS, re_render = PASS \<rparr> \<rparr>"

definition mandate_items :: "mandate_rec \<Rightarrow> (string \<times> verdict) list" where
  \<comment> \<open>\<open>self.mandate_checks.items()\<close>: the keys in the order in which \<open>__init__\<close> wrote them\<close>
  "mandate_items m =
     [(''integer_cents'', integer_cents m), (''sync_integrity'', sync_integrity m),
      (''soft_deletes'', soft_deletes m), (''auth_abstraction'', auth_abstraction m)]"

section \<open>Sacred mandate and performance checks\<close>

definition has_financial_term :: "source_file \<Rightarrow> bool" where
  "has_financial_term f =
     (str_in ''balance'' (lower (content f)) \<or> str_in ''amount'' (lower (content f))
      \<or> str_in ''price'' (lower (content f)))"

definition has_float_usage :: "source_file \<Rightarrow> bool" where
  "has_float_usage f =
     (str_in ''number'' (content f)
      \<and> (str_in ''float'' (lower (content f)) \<or> str_in ''double'' (lower (content f))))"

definition float_message :: "source_file \<Rightarrow> string" where
  "float_message f = ''Potential float usage in '' @ rel_path f"

definition delete_message :: "source_file \<Rightarrow> string" where
  "delete_message f = ''Potential hard delete verification needed in '' @ rel_path f"

definition auth_message :: "source_file \<Rightarrow> string" where
  "auth_message f = ''Direct supabase.auth usage in '' @ rel_path f"

definition watch_message :: "source_file \<Rightarrow> string" where
  "watch_message f = ''Usage of watch() instead of useWatch in '' @ rel_path f"

definition integer_cents_step :: "bool \<times> string list \<Rightarrow> source_file \<Rightarrow> bool \<times> string list" where
  \<comment> \<open>the body of the first loop, on \<open>(has_financial, float_violations)\<close>\<close>
  "integer_cents_step st f =
     (case st of (has_financial, float_violations) \<Rightarrow>
        if has_financial_term f
        then (True, if has_float_usage f
                    then float_violations @ [float_message f]
                    else float_violations)
        else (has_financial, float_violations))"

definition soft_deletes_step :: "bool \<times> string list \<Rightarrow> source_file \<Rightarrow> bool \<times> string list" where
  \<comment> \<open>the body of the second loop, on \<open>(has_delete, delete_violations)\<close>\<close>
  "soft_deletes_step st f =
     (case st of (has_delete, delete_violations) \<Rightarrow>
        if str_in ''delete'' (lower (content f))
        then (if \<not> str_in ''deleted_at'' (content f) \<and> \<not> str_in ''deletedAt'' (content f)
              then (if str_in ''repository'' (rel_path f)
                    then (True, delete_violations @ [delete_message f])
                    else (has_delete, delete_violations))
              else (has_delete, delete_violations))
        else (has_delete, delete_violations))"

definition auth_step :: "string \<Rightarrow> string list \<Rightarrow> source_file \<Rightarrow> string list" where
  \<comment> \<open>the body of the third loop, on \<open>auth_violations\<close>\<close>
  "auth_step fname auth_violations f =
     (if str_in ''supabase.auth.'' (content f)
      then (if fname \<noteq> ''auth''
            then auth_violations @ [auth_message f]
            else auth_violations)
      else auth_violations)"

definition audit_sacred_mandate :: "auditor \<Rightarrow> auditor" where
  "audit_sacred_mandate a =
     (let (has_financial, float_violations) = foldl integer_cents_step (False, []) (files a);
          a1 = (if has_financial
                then a\<lparr> mandate_checks := (mandate_checks a)
                          \<lparr> integer_cents := (if float_violations = [] then PASS else FAIL) \<rparr>,
                        issues := issues a @ float_violations \<rparr>
                else a);
          (has_delete, delete_violations) = foldl soft_deletes_step (False, []) (files a1);
          a2 = (if has_delete
                then a1\<lparr> mandate_checks := (mandate_checks a1)
                           \<lparr> soft_deletes := (if delete_violations = [] then PASS else WARNING) \<rparr>,
                         issues := issues a1 @ delete_violations \<rparr>
                else a1);
          auth_violations = foldl (auth_step (feature_name a2)) [] (files a2)
      in if auth_violations \<noteq> []
         then a2\<lparr> mandate_checks := (mandate_checks a2)\<lparr> auth_abstraction := FAIL \<rparr>,
                  issues := issues a2 @ auth_violations \<rparr>
         else a2\<lparr> mandate_checks := (mandate_checks a2)\<lparr> auth_abstraction := PASS \<rparr> \<rparr>)"

definition watch_step :: "string list \<Rightarrow> source_file \<Rightarrow> string list" where
  "watch_step watch_violations f =
     (if str_in ''watch('' (content f) \<and> \<not> str_in ''useWatch'' (content f)
      then (if str_in ''react-hook-form'' (content f)
            then watch_violations @ [watch_message f]
            else watch_violations)
      else watch_violations)"

definition audit_performance :: "auditor \<Rightarrow> auditor" where
  "audit_performance a =
     (let watch_violations = foldl watch_step [] (files a)
      in if watch_violations \<noteq> []
         then a\<lparr> performance_checks := (performance_checks a)\<lparr> react_compiler := FAIL \<rparr>,
                 issues := issues a @ watch_violations \<rparr>
         else a)"

section \<open>Entity and naming registry\<close>

definition is_lower_az :: "char \<Rightarrow> bool" where
  \<comment> \<open>the class \<open>[a-z]\<close>\<close>
  "is_lower_az c = (c \<in> set ''abcdefghijklmnopqrstuvwxyz'')"

definition is_snake_tail :: "char \<Rightarrow> bool" where
  \<comment> \<open>the class \<open>[a-z0-9_]\<close>\<close>
  "is_snake_tail c = (is_lower_az c \<or> c \<in> set ''0123456789_'')"

definition is_alnum :: "char \<Rightarrow> bool" where
  \<comment> \<open>the class \<open>[A-Za-z0-9]\<close>\<close>
  "is_alnum c = (is_lower_az c \<or> c \<in> set ''ABCDEFGHIJKLMNOPQRSTUVWXYZ0123456789'')"

definition skip_qmark :: "string \<Rightarrow> string" where
  \<comment> \<open>\<open>\??\<close>\<close>
  "skip_qmark s = (case s of [] \<Rightarrow> [] | c # cs \<Rightarrow> if c = CHR ''?'' then cs else c # cs)"

definition snake_match :: "string \<Rightarrow> (string \<times> string) option" where
  \<comment> \<open>A match of \<open>\s*([a-z]+_[a-z0-9_]*)\??\s*:\<close> at the start of the text: group 1 and
      the text after the match. Every repetition of the pattern is followed by a
      character outside its class, so the greedy match is the only one.\<close>
  "snake_match s =
     (let s1 = dropWhile is_space s;
          s2 = dropWhile is_lower_az s1
      in if takeWhile is_lower_az s1 = [] then None
         else (case s2 of
                 [] \<Rightarrow> None
               | u # s3 \<Rightarrow>
                   if u \<noteq> CHR ''_'' then None
                   else (case dropWhile is_space (skip_qmark (dropWhile is_snake_tail s3)) of
                           [] \<Rightarrow> None
                         | c # rest \<Rightarrow>
                             if c = CHR '':''
                             then Some (takeWhile is_lower_az s1 @ CHR ''_'' # takeWhile is_snake_tail s3,
                                        rest)
                             else None)))"

lemma length_skip_qmark: "length (skip_qmark s) \<le> length s"
  by (simp add: skip_qmark_def split: list.splits)

lemma snake_match_shorter:
  assumes "snake_match s = Some (p, rest)"
  shows "length rest < length s"
proof -
  obtain u s3 c where s2: "dropWhile is_lower_az (dropWhile is_space s) = u # s3"
    and s6: "dropWhile is_space (skip_qmark (dropWhile is_snake_tail s3)) = c # rest"
    using assms by (auto simp: snake_match_def Let_def split: if_splits list.splits)
  have "length (c # rest) \<le> length (skip_qmark (dropWhile is_snake_tail s3))"
    unfolding s6 [symmetric] by (rule length_dropWhile_le)
  also have "\<dots> \<le> length (dropWhile is_snake_tail s3)" by (rule length_skip_qmark)
  also have "\<dots> \<le> length s3" by (rule length_dropWhile_le)
  also have "\<dots> < length (u # s3)" by simp
  also have "\<dots> \<le> length (dropWhile is_space s)"
    unfolding s2 [symmetric] by (rule length_dropWhile_le)
  also have "\<dots> \<le> length s" by (rule length_dropWhile_le)
  finally show ?thesis by simp
qed

function snake_findall :: "bool \<Rightarrow> string \<Rightarrow> string list" where
  \<comment> \<open>\<open>re.findall(r'^\s*([a-z]+_[a-z0-9_]*)\??\s*:', text, re.MULTILINE)\<close>. The flag says
      whether the position is the start of the text or follows a newline, where \<open>^\<close>
      matches; the scan goes on after the end of a match.\<close>
  "snake_findall bol [] = []"
| "snake_findall bol (c # cs) =
     (case (if bol then snake_match (c # cs) else None) of
        Some (p, rest) \<Rightarrow> p # snake_findall False rest
      | None \<Rightarrow> snake_findall (c = CHR 0x0A) cs)"
  by pat_completeness auto

termination
  by (relation "measure (\<lambda>(bol, s). length s)")
     (auto split: if_splits dest: snake_match_shorter)

definition entity_match :: "string \<Rightarrow> ((string \<times> string) \<times> string) option" where
  \<comment> \<open>A match of \<open>(export )?(interface|type|class) ([A-Za-z0-9]+)\<close> at the start of the
      text: groups 2 and 3, and the text after the match.\<close>
  "entity_match s =
     (let s1 = (if prefix ''export '' s then drop 7 s else s);
          kind = (if prefix ''interface'' s1 then Some ''interface''
                  else if prefix ''type'' s1 then Some ''type''
                  else if prefix ''class'' s1 then Some ''class'' else None)
      in case kind of
           None \<Rightarrow> None
         | Some k \<Rightarrow>
             (case drop (length k) s1 of
                [] \<Rightarrow> None
              | c # s2 \<Rightarrow>
                  if c = CHR '' '' \<and> takeWhile is_alnum s2 \<noteq> []
                  then Some ((k, takeWhile is_alnum s2), dropWhile is_alnum s2)
                  else None))"

lemma drop_Cons_shorter: "drop n s = c # t \<Longrightarrow> length t < length s"
  by (drule arg_cong [where f = length]) simp

lemma entity_match_shorter:
  assumes "entity_match s = Some (e, rest)"
  shows "length rest < length s"
proof -
  have "\<exists>n c s2. drop n s = c # s2 \<and> rest = dropWhile is_alnum s2"
    using assms
    by (auto simp: entity_match_def Let_def split: if_splits option.splits list.splits)
  then obtain n c s2 where d: "drop n s = c # s2" and r: "rest = dropWhile is_alnum s2"
    by blast
  have "length rest \<le> length s2" unfolding r by (rule length_dropWhile_le)
  also have "\<dots> < length s" using d by (rule drop_Cons_shorter)
  finally show ?thesis .
qed

function entity_findall :: "string \<Rightarrow> (string \<times> string) list" where
  \<comment> \<open>\<open>re.findall(r'(export )?(interface|type|class) ([A-Za-z0-9]+)', text)\<close>, without
      the first group, which the caller drops.\<close>
  "entity_findall [] = []"
| "entity_findall (c # cs) =
     (case entity_match (c # cs) of
        Some (e, rest) \<Rightarrow> e # entity_findall rest
      | None \<Rightarrow> entity_findall cs)"
  by pat_completeness auto

termination
  by (relation "measure length") (auto dest: entity_match_shorter)

record entity =
  e_name :: string
  e_kind :: string
  e_file :: string

definition snake_message :: "source_file \<Rightarrow> string \<Rightarrow> string" where
  "snake_message f p =
     ''Snake_case property '' @ [CHR 0x27] @ p @ [CHR 0x27] @ '' in domain file '' @ rel_path f"

definition naming_step :: "entity list \<times> string list \<Rightarrow> source_file \<Rightarrow> entity list \<times> string list" where
  \<comment> \<open>the body of the loop, on \<open>(entities, naming_violations)\<close>\<close>
  "naming_step st f =
     (case st of (entities, naming_violations) \<Rightarrow>
        (entities @ map (\<lambda>(k, n). \<lparr> e_name = n, e_kind = k, e_file = rel_path f \<rparr>)
                        (entity_findall (content f)),
         if str_in ''domain'' (rel_path f)
         then naming_violations @ map (snake_message f) (snake_findall True (content f))
         else naming_violations))"

definition audit_variable_entity_registry :: "auditor \<Rightarrow> auditor \<times> entity list" where
  "audit_variable_entity_registry a =
     (let (entities, naming_violations) = foldl naming_step ([], []) (files a)
      in (if naming_violations \<noteq> []
          then a\<lparr> stats := (stats a)\<lparr> naming := FAIL \<rparr>, issues := issues a @ naming_violations \<rparr>
          else a,
          entities))"

section \<open>Dependency manifest\<close>

definition is_quote :: "char \<Rightarrow> bool" where
  \<comment> \<open>the class \<open>['"]\<close>\<close>
  "is_quote c = (c = CHR 0x27 \<or> c = CHR 0x22)"

definition not_quote :: "char \<Rightarrow> bool" where
  "not_quote c = (\<not> is_quote c)"

definition from_match :: "string \<Rightarrow> string option" where
  \<comment> \<open>A match of \<open>from ['"]([^'"]+)['"]\<close> at the start of the text: group 1.\<close>
  "from_match s =
     (if prefix ''from '' s
      then (case drop 5 s of
              [] \<Rightarrow> None
            | q # s1 \<Rightarrow>
                if is_quote q \<and> takeWhile not_quote s1 \<noteq> [] \<and> dropWhile not_quote s1 \<noteq> []
                then Some (takeWhile not_quote s1) else None)
      else None)"

fun from_search :: "string \<Rightarrow> string option" where
  \<comment> \<open>\<open>re.search\<close>: the leftmost match\<close>
  "from_search [] = None"
| "from_search (c # cs) =
     (case from_match (c # cs) of Some p \<Rightarrow> Some p | None \<Rightarrow> from_search cs)"

definition index :: "'a list \<Rightarrow> nat \<Rightarrow> py_error + 'a" where
  \<comment> \<open>\<open>xs[i]\<close> for \<open>i \<ge> 0\<close>\<close>
  "index xs i = (if i < length xs then Inr (xs ! i) else Inl IndexError)"

definition target_feature :: "string \<Rightarrow> py_error + string" where
  \<comment> \<open>\<open>path_str.split("features/")[1].split("/")[0]\<close>\<close>
  "target_feature path_str =
     (case index (split path_str ''features/'') 1 of
        Inl e \<Rightarrow> Inl e
      | Inr seg \<Rightarrow> index (split seg ''/'') 0)"

definition dependency_line ::
  "string \<Rightarrow> string \<Rightarrow> nat \<Rightarrow> string \<Rightarrow> py_error + (string list \<times> string list)" where
  \<comment> \<open>The body of the inner loop for line \<open>i\<close> (counted from 0) of the file \<open>rel\<close>: what it
      appends to \<open>feature_bleed\<close> and to \<open>transformers\<close>.\<close>
  "dependency_line fname rel i line =
     (if startswith (strip line) ''import ''
      then (case from_search line of
              None \<Rightarrow> Inr ([], [])
            | Some path_str \<Rightarrow>
                (case (if startswith path_str ''@/features/''
                          \<or> startswith path_str ''../../features/''
                       then (case target_feature path_str of
                               Inl e \<Rightarrow> Inl e
                             | Inr t \<Rightarrow>
                                 Inr (if t \<noteq> fname \<and> t \<noteq> ''shared''
                                      then [''Import from '' @ t @ '' in '' @ rel @ '':''
                                            @ str_nat (i + 1)]
                                      else []))
                       else Inr []) of
                   Inl e \<Rightarrow> Inl e
                 | Inr bleed \<Rightarrow>
                     Inr (bleed,
                          if str_in ''types/data-transformers'' path_str
                             \<or> str_in ''data/data-transformers'' path_str
                          then [''Uses data-transformers in '' @ rel @ '':'' @ str_nat (i + 1)]
                          else [])))
      else Inr ([], []))"

fun dependency_lines ::
  "string \<Rightarrow> string \<Rightarrow> nat \<Rightarrow> string list \<Rightarrow> string list \<times> string list
   \<Rightarrow> py_error + (string list \<times> string list)" where
  \<comment> \<open>the inner loop, on \<open>(feature_bleed, transformers)\<close>\<close>
  "dependency_lines fname rel i [] acc = Inr acc"
| "dependency_lines fname rel i (line # ls) acc =
     (case dependency_line fname rel i line of
        Inl e \<Rightarrow> Inl e
      | Inr (b, t) \<Rightarrow> dependency_lines fname rel (Suc i) ls (fst acc @ b, snd acc @ t))"

fun dependency_files ::
  "string \<Rightarrow> source_file list \<Rightarrow> string list \<times> string list
   \<Rightarrow> py_error + (string list \<times> string list)" where
  \<comment> \<open>the outer loop\<close>
  "dependency_files fname [] acc = Inr acc"
| "dependency_files fname (f # fs) acc =
     (case dependency_lines fname (rel_path f) 0 (line_content f) acc of
        Inl e \<Rightarrow> Inl e
      | Inr acc' \<Rightarrow> dependency_files fname fs acc')"

definition audit_dependencies :: "auditor \<Rightarrow> py_error + (auditor \<times> string list)" where
  "audit_dependencies a =
     (case dependency_files (feature_name a) (files a) ([], []) of
        Inl e \<Rightarrow> Inl e
      | Inr (bleed, transformers) \<Rightarrow>
          Inr (if bleed \<noteq> []
               then a\<lparr> stats := (stats a)\<lparr> dependency_manifest := FAIL, feature_bleed := bleed \<rparr>,
                       issues := issues a @ bleed \<rparr>
               else a,
               transformers))"

section \<open>The report\<close>

definition run_audits :: "auditor \<Rightarrow> py_error + (auditor \<times> entity list \<times> string list)" where
  \<comment> \<open>the first four statements of \<open>generate_markdown\<close>\<close>
  "run_audits a =
     (let (a1, entities) = audit_variable_entity_registry a
      in case audit_dependencies a1 of
           Inl e \<Rightarrow> Inl e
         | Inr (a2, transformers) \<Rightarrow>
             Inr (audit_performance (audit_sacred_mandate a2), entities, transformers))"

definition summary_lines :: "string \<Rightarrow> auditor \<Rightarrow> string list" where
  "summary_lines today a =
     [''# Composable Manifest: features/'' @ feature_name a,
      [],
      ''> **Generated**: '' @ today,
      ''> **Auditor**: Automated Construction Agent'',
      ''> **Scope**: `/features/'' @ feature_name a @ ''/` folder'',
      [],
      ''---'',
      [],
      ''## Executive Summary'',
      [],
      ''| Category | Status | Notes |'',
      ''|----------|--------|-------|'',
      ''| Variable & Entity Registry | '' @ verdict_str (naming (stats a)) @ '' | ''
        @ (if naming (stats a) = FAIL then ''Issues found'' else ''Clean'') @ '' |'',
      ''| Dependency Manifest | '' @ verdict_str (dependency_manifest (stats a)) @ '' | ''
        @ str_nat (length (feature_bleed (stats a))) @ '' violations |'',
      ''| Sacred Mandate | '' @ verdict_str (sacred_mandate (stats a)) @ '' | Auth: ''
        @ verdict_str (auth_abstraction (mandate_checks a)) @ '' |'',
      ''| Performance | '' @ verdict_str (performance (stats a)) @ '' | Watch Usage: ''
        @ verdict_str (react_compiler (performance_checks a)) @ '' |'',
      []]
     @ (if issues a \<noteq> []
        then ''**Issues Found:**'' # map (\<lambda>issue. ''- '' @ issue) (issues a)
        else [''**Overall Result: PASSED**''])
     @ [[], ''---'', []]"

fun folder_add ::
  "string \<Rightarrow> source_file \<Rightarrow> (string \<times> source_file list) list
   \<Rightarrow> (string \<times> source_file list) list" where
  \<comment> \<open>one step of the grouping loop on the dictionary \<open>files_by_folder\<close>, whose entries
      stand in the order in which their keys were inserted\<close>
  "folder_add folder f [] = [(folder, [f])]"
| "folder_add folder f ((k, fs) # d) =
     (if k = folder then (k, fs @ [f]) # d else (k, fs) # folder_add folder f d)"

definition files_by_folder :: "source_file list \<Rightarrow> (string \<times> source_file list) list" where
  "files_by_folder fs = foldl (\<lambda>d f. folder_add (dirname (rel_path f)) f d) [] fs"

definition folder_lines :: "string \<times> source_file list \<Rightarrow> string list" where
  "folder_lines e =
     (case e of (folder, fs) \<Rightarrow>
        [''#### '' @ folder, ''| File | Lines |'', ''|------|-------|'']
        @ map (\<lambda>f. ''| `'' @ name f @ ''` | '' @ str_nat (lines f) @ '' |'') fs
        @ [[]])"

definition registry_lines :: "auditor \<Rightarrow> entity list \<Rightarrow> string list" where
  "registry_lines a entities =
     [''## 1. Variable & Entity Registry'',
      [],
      ''### 1.1 Feature File Inventory'',
      ''**Total Files**: '' @ str_nat (length (files a)),
      []]
     @ concat (map folder_lines (files_by_folder (files a)))
     @ [''### 1.2 Entity Inventory'', ''| Name | Kind | File |'', ''|------|------|------|'']
     @ map (\<lambda>e. ''| `'' @ e_name e @ ''` | '' @ e_kind e @ '' | `'' @ e_file e @ ''` |'') entities
     @ [[]]"

definition manifest_lines :: "auditor \<Rightarrow> string list \<Rightarrow> string list" where
  "manifest_lines a transformers =
     [''## 2. Dependency Manifest'', [], ''### 2.1 Feature Bleed Check'']
     @ (if feature_bleed (stats a) \<noteq> []
        then [''**Result: FAIL**'', []]
             @ map (\<lambda>violation. ''- '' @ violation) (feature_bleed (stats a))
        else [''**Result: PASS**'', ''No prohibited cross-feature imports detected.''])
     @ [[], ''### 2.2 Transformer Usage'']
     @ (if transformers \<noteq> []
        then [''| File | Usage |'', ''|------|-------|'']
             @ map (\<lambda>t. ''| '' @ t @ '' |'') transformers
        else [''No explicit transformer imports found.''])"

definition check_lines :: "auditor \<Rightarrow> string \<times> verdict \<Rightarrow> string list" where
  \<comment> \<open>the body of the loop over \<open>self.mandate_checks.items()\<close>\<close>
  "check_lines a e =
     (case e of (check, status) \<Rightarrow>
        [''### 3.x '' @ title (replace_char CHR ''_'' CHR '' '' check),
         ''**Status: '' @ verdict_str status @ ''**'']
        @ (if status = FAIL
           then map (\<lambda>r. ''- '' @ r) (filter (\<lambda>i. str_in check (lower i)) (issues a))
           else [])
        @ [[]])"

definition mandate_lines :: "auditor \<Rightarrow> string list" where
  "mandate_lines a =
     [[], ''## 3. Sacred Mandate Compliance'', []]
     @ concat (map (check_lines a) (mandate_items (mandate_checks a)))"

definition performance_lines :: "auditor \<Rightarrow> string list" where
  "performance_lines a =
     [''## 4. Performance & Scalability'',
      [],
      ''### 4.1 React Compiler Check'',
      ''**Status: '' @ verdict_str (react_compiler (performance_checks a)) @ ''**'']
     @ (if react_compiler (performance_checks a) = FAIL
        then map (\<lambda>r. ''- '' @ r) (filter (\<lambda>i. str_in ''watch'' (lower i)) (issues a))
        else [])"

definition report_lines :: "string \<Rightarrow> auditor \<Rightarrow> entity list \<Rightarrow> string list \<Rightarrow> string list" where
  \<comment> \<open>the list \<open>out\<close> at the end of \<open>generate_markdown\<close>; \<open>today\<close> is
      \<open>datetime.date.today().isoformat()\<close>\<close>
  "report_lines today a entities transformers =
     summary_lines today a @ registry_lines a entities @ manifest_lines a transformers
     @ mandate_lines a @ performance_lines a"

definition generate_markdown :: "string \<Rightarrow> auditor \<Rightarrow> py_error + string" where
  "generate_markdown today a =
     (case run_audits a of
        Inl e \<Rightarrow> Inl e
      | Inr (a', entities, transformers) \<Rightarrow>
          Inr (join [CHR 0x0A] (report_lines today a' entities transformers)))"

section \<open>Scanning the feature directory and the entry point\<close>

text \<open>
  The directory \<open>features/<name>\<close> as the run finds it. A file holds its decoded text, or
  the error that opening or decoding it raises. A directory holds its entries in the
  order in which \<open>os.scandir\<close> lists them, or the error that listing it raises. Paths are
  written relative to the project root.
\<close>

datatype fs_node = FsFile "py_error + string" | FsDir "py_error + (string \<times> fs_node) list"

fun os_walk :: "string \<Rightarrow> fs_node \<Rightarrow> (string \<times> (string \<times> (py_error + string)) list) list" where
  \<comment> \<open>\<open>os.walk(root)\<close> with its default \<open>onerror=None\<close>, which ignores the error of listing
      a directory: what it yields, top down, with each file name paired with what
      opening the file gives. The names of the subdirectories are left out, the caller
      ignores them.\<close>
  "os_walk root (FsFile c) = []"
| "os_walk root (FsDir (Inl e)) = []"
| "os_walk root (FsDir (Inr es)) =
     (root, concat (map (\<lambda>(n, c). case c of FsFile t \<Rightarrow> [(n, t)] | FsDir d \<Rightarrow> []) es))
     # concat (map (\<lambda>(n, c). case c of FsFile t \<Rightarrow> [] | FsDir d \<Rightarrow> os_walk (root @ ''/'' @ n) c) es)"

definition walk_feature ::
  "string \<Rightarrow> fs_node option \<Rightarrow> (string \<times> (string \<times> (py_error + string)) list) list" where
  \<comment> \<open>\<open>os.walk(self.feature_path)\<close>; \<open>None\<close> is a directory that does not exist, whose
      listing fails as well\<close>
  "walk_feature fname d = (case d of None \<Rightarrow> [] | Some t \<Rightarrow> os_walk (''features/'' @ fname) t)"

definition make_file :: "string \<Rightarrow> string \<Rightarrow> string \<Rightarrow> source_file" where
  "make_file root file txt =
     \<lparr> path = root @ ''/'' @ file, rel_path = root @ ''/'' @ file, name = file, content = txt,
       lines = length (splitlines txt), line_content = splitlines txt \<rparr>"

fun scan_dir ::
  "string \<Rightarrow> (string \<times> (py_error + string)) list \<Rightarrow> source_file list
   \<Rightarrow> py_error + source_file list" where
  \<comment> \<open>the inner loop of \<open>scan_files\<close>, on \<open>self.files\<close>\<close>
  "scan_dir root [] fs = Inr fs"
| "scan_dir root ((file, c) # es) fs =
     (if endswith file ''.ts'' \<or> endswith file ''.tsx''
      then (case c of
              Inl e \<Rightarrow> Inl e
            | Inr txt \<Rightarrow> scan_dir root es (fs @ [make_file root file txt]))
      else scan_dir root es fs)"

fun scan_walk ::
  "(string \<times> (string \<times> (py_error + string)) list) list \<Rightarrow> source_file list
   \<Rightarrow> py_error + source_file list" where
  \<comment> \<open>the outer loop of \<open>scan_files\<close>\<close>
  "scan_walk [] fs = Inr fs"
| "scan_walk ((root, es) # w) fs =
     (case scan_dir root es fs of Inl e \<Rightarrow> Inl e | Inr fs' \<Rightarrow> scan_walk w fs')"

definition scan_files :: "fs_node option \<Rightarrow> auditor \<Rightarrow> py_error + auditor" where
  "scan_files d a =
     (case scan_walk (walk_feature (feature_name a) d) (files a) of
        Inl e \<Rightarrow> Inl e
      | Inr fs \<Rightarrow> Inr (a\<lparr> files := fs \<rparr>))"

text \<open>
  What a run leaves behind: the usage message and exit status 1, an uncaught exception, or
  the report written to the output path.
\<close>

datatype outcome = Usage_Exit | Fatal py_error | Report_Written string string

record world =
  feature_dir :: "string \<Rightarrow> fs_node option"
  docs_writable :: bool
  date_today :: string

definition main :: "string list \<Rightarrow> world \<Rightarrow> outcome" where
  \<comment> \<open>the \<open>__main__\<close> block on \<open>sys.argv\<close>\<close>
  "main argv w =
     (if length argv < 2 then Usage_Exit
      else (case scan_files (feature_dir w (argv ! 1)) (init (argv ! 1)) of
              Inl e \<Rightarrow> Fatal e
            | Inr auditor \<Rightarrow>
                (case generate_markdown (date_today w) auditor of
                   Inl e \<Rightarrow> Fatal e
                 | Inr report \<Rightarrow>
                     if docs_writable w
                     then Report_Written (''docs/documentation/audit-'' @ argv ! 1 @ ''.md'') report
                     else Fatal OSError)))"

section \<open>Sample inputs\<close>

definition form_file :: source_file where
  \<comment> \<open>a form component that watches a field and calls the auth client\<close>
  "form_file = make_file ''features/billing/components'' ''form.tsx''
     (''// react-hook-form'' @ [CHR 0x0A]
      @ ''const v = watch(field); supabase.auth.getUser();'')"

definition repo_file :: source_file where
  \<comment> \<open>a repository whose delete sets the deletion timestamp\<close>
  "repo_file = make_file ''features/billing/repository'' ''account_repo.ts''
     (''async delete(id) { return db.update(id, { deleted_at: now() }); }'')"

definition account_file :: source_file where
  \<comment> \<open>a file with a financial term and no float\<close>
  "account_file = make_file ''features/billing/domain'' ''account.ts''
     (''export interface Account { balance: bigint }'')"

definition chart_file :: source_file where
  \<comment> \<open>a file with \<open>number\<close> and \<open>float\<close> and no financial term\<close>
  "chart_file = make_file ''features/billing/utils'' ''chart.ts''
     (''const ratio: number = parseFloat(raw);'')"

definition import_file :: source_file where
  \<comment> \<open>a component that imports from the feature directory \<open>sharedfeatures\<close>\<close>
  "import_file = make_file ''features/billing/components'' ''list.tsx''
     (''import { Table } from '' @ [CHR 0x22] @ ''@/features/sharedfeatures/table'' @ [CHR 0x22]
      @ '';'')"

definition user_file :: source_file where
  \<comment> \<open>a domain file that declares the fields \<open>user_id: string\<close> and
      \<open>created_at?: Date\<close>\<close>
  "user_file = make_file ''features/billing/domain'' ''user.ts''
     (''export interface User {'' @ [CHR 0x0A] @ ''  user_id: string;'' @ [CHR 0x0A]
      @ ''  created_at?: Date;'' @ [CHR 0x0A] @ ''}'')"


definition assets_dir :: fs_node where
  \<comment> \<open>a feature directory without source files\<close>
  "assets_dir = FsDir (Inr [(''README.md'', FsFile (Inr ''# Billing'')),
                           (''assets'', FsDir (Inr [(''logo.svg'', FsFile (Inl UnicodeDecodeError))])),
                           (''private'', FsDir (Inl OSError))])"

definition no_feature_world :: world where
  \<comment> \<open>a project without any feature directory\<close>
  "no_feature_world = \<lparr> feature_dir = (\<lambda>n. None), docs_writable = True, date_today = ''2026-01-01'' \<rparr>"





section \<open>What the loops compute\<close>

lemma integer_cents_loop:
  "foldl integer_cents_step (h, v) fs =
     (h \<or> list_ex has_financial_term fs,
      v @ map float_message
            (filter (\<lambda>f. has_financial_term f \<and> has_float_usage f) fs))"
  by (induction fs arbitrary: h v) (simp_all add: integer_cents_step_def)

definition hard_delete_suspect :: "source_file \<Rightarrow> bool" where
  "hard_delete_suspect f =
     (str_in ''delete'' (lower (content f)) \<and> \<not> str_in ''deleted_at'' (content f)
      \<and> \<not> str_in ''deletedAt'' (content f) \<and> str_in ''repository'' (rel_path f))"

lemma soft_deletes_loop:
  "foldl soft_deletes_step (h, v) fs =
     (h \<or> list_ex hard_delete_suspect fs,
      v @ map delete_message
            (filter hard_delete_suspect fs))"
  by (induction fs arbitrary: h v) (simp_all add: soft_deletes_step_def hard_delete_suspect_def)

lemma auth_loop:
  "foldl (auth_step n) v fs =
     v @ (if n \<noteq> ''auth''
          then map auth_message
                 (filter (\<lambda>f. str_in ''supabase.auth.'' (content f)) fs)
          else [])"
  by (induction fs arbitrary: v) (simp_all add: auth_step_def)

lemma watch_loop:
  "foldl watch_step v fs =
     v @ map watch_message
           (filter (\<lambda>f. str_in ''watch('' (content f) \<and> \<not> str_in ''useWatch'' (content f)
                        \<and> str_in ''react-hook-form'' (content f)) fs)"
  by (induction fs arbitrary: v) (simp_all add: watch_step_def)

lemma filter_empty_list_ex: "(filter P xs = []) = (\<not> list_ex P xs)"
  by (induction xs) simp_all

lemma audit_sacred_mandate_checks:
  "mandate_checks (audit_sacred_mandate a) =
     \<lparr> integer_cents =
         (if list_ex has_financial_term (files a)
          then (if list_ex (\<lambda>f. has_financial_term f \<and> has_float_usage f) (files a)
                then FAIL else PASS)
          else integer_cents (mandate_checks a)),
       sync_integrity = sync_integrity (mandate_checks a),
       soft_deletes =
         (if list_ex hard_delete_suspect (files a) then WARNING
          else soft_deletes (mandate_checks a)),
       auth_abstraction =
         (if feature_name a \<noteq> ''auth''
             \<and> list_ex (\<lambda>f. str_in ''supabase.auth.'' (content f)) (files a)
          then FAIL else PASS) \<rparr>"
  by (simp add: audit_sacred_mandate_def integer_cents_loop soft_deletes_loop auth_loop
      filter_empty_list_ex Let_def)

lemma audit_sacred_mandate_issues:
  "issues (audit_sacred_mandate a) =
     issues a
     @ map float_message
         (filter (\<lambda>f. has_financial_term f \<and> has_float_usage f) (files a))
     @ map delete_message
         (filter hard_delete_suspect (files a))
     @ (if feature_name a \<noteq> ''auth''
        then map auth_message
               (filter (\<lambda>f. str_in ''supabase.auth.'' (content f)) (files a))
        else [])"
  by (auto simp: audit_sacred_mandate_def integer_cents_loop soft_deletes_loop auth_loop
      filter_empty_conv list_ex_iff Let_def)

lemma audit_sacred_mandate_rest:
  "stats (audit_sacred_mandate a) = stats a"
  "files (audit_sacred_mandate a) = files a"
  "feature_name (audit_sacred_mandate a) = feature_name a"
  "performance_checks (audit_sacred_mandate a) = performance_checks a"
  by (simp_all add: audit_sacred_mandate_def Let_def split: prod.splits)

lemma audit_performance_checks:
  "performance_checks (audit_performance a) =
     (performance_checks a)\<lparr> react_compiler :=
        (if list_ex (\<lambda>f. str_in ''watch('' (content f) \<and> \<not> str_in ''useWatch'' (content f)
                        \<and> str_in ''react-hook-form'' (content f)) (files a)
         then FAIL else react_compiler (performance_checks a)) \<rparr>"
  by (simp add: audit_performance_def watch_loop filter_empty_list_ex Let_def)


lemma audit_performance_rest:
  "stats (audit_performance a) = stats a"
  "files (audit_performance a) = files a"
  "feature_name (audit_performance a) = feature_name a"
  "mandate_checks (audit_performance a) = mandate_checks a"
  by (simp_all add: audit_performance_def Let_def)

lemma split_from_nonempty: "split_from sep cur s \<noteq> []"
  by (induction sep cur s rule: split_from.induct) simp_all

lemma split_from_two:
  "sep \<noteq> [] \<Longrightarrow> \<exists>x y zs. split_from sep cur (a @ sep @ b) = x # y # zs"
proof (induction a arbitrary: cur)
  case Nil
  then obtain c cs where s: "sep @ b = c # cs" by (cases sep) auto
  have "prefix sep (c # cs)" unfolding s [symmetric] by simp
  moreover obtain y zs where "split_from sep [] (drop (length sep) (c # cs)) = y # zs"
    using split_from_nonempty by (meson list.exhaust)
  ultimately show ?case using Nil s by simp
next
  case (Cons x a)
  obtain y zs where "split_from sep [] (drop (length sep) (x # a @ sep @ b)) = y # zs"
    using split_from_nonempty by (meson list.exhaust)
  with Cons show ?case by simp
qed

lemma target_feature_ok:
  assumes "startswith p ''@/features/'' \<or> startswith p ''../../features/''"
  shows "\<exists>t. target_feature p = Inr t"
proof -
  from assms obtain a b where "p = a @ ''features/'' @ b"
  proof
    assume "startswith p ''@/features/''"
    then obtain r where "p = ''@/features/'' @ r" by (auto simp: startswith_def prefix_def)
    then have "p = ''@/'' @ ''features/'' @ r" by simp
    then show ?thesis by (rule that)
  next
    assume "startswith p ''../../features/''"
    then obtain r where "p = ''../../features/'' @ r" by (auto simp: startswith_def prefix_def)
    then have "p = ''../../'' @ ''features/'' @ r" by simp
    then show ?thesis by (rule that)
  qed
  then obtain x y zs where sp: "split p ''features/'' = x # y # zs"
    using split_from_two [of "''features/''" "[]" a b] by (auto simp: split_def)
  obtain u us where "split y ''/'' = u # us"
    using split_from_nonempty [of "''/''" "[]" y] by (cases "split y ''/''") (auto simp: split_def)
  with sp show ?thesis by (simp add: target_feature_def index_def)
qed

definition line_findings :: "string \<Rightarrow> string \<Rightarrow> nat \<Rightarrow> string \<Rightarrow> string list \<times> string list" where
  "line_findings fname rel i line =
     (case dependency_line fname rel i line of Inl e \<Rightarrow> ([], []) | Inr r \<Rightarrow> r)"

lemma dependency_line_ok:
  "dependency_line fname rel i line = Inr (line_findings fname rel i line)"
proof (cases "dependency_line fname rel i line")
  case (Inr r)
  then show ?thesis by (simp add: line_findings_def)
next
  case (Inl e)
  then obtain p where p: "startswith p ''@/features/'' \<or> startswith p ''../../features/''"
    and t: "target_feature p = Inl e"
    by (auto simp: dependency_line_def split: if_splits option.splits sum.splits)
  from target_feature_ok [OF p] t show ?thesis by simp
qed

definition file_findings :: "string \<Rightarrow> source_file \<Rightarrow> string list \<times> string list" where
  "file_findings fname f =
     (concat (map (\<lambda>(i, l). fst (line_findings fname (rel_path f) i l))
                  (enumerate 0 (line_content f))),
      concat (map (\<lambda>(i, l). snd (line_findings fname (rel_path f) i l))
                  (enumerate 0 (line_content f))))"

lemma dependency_lines_ok:
  "dependency_lines fname rel i ls acc =
     Inr (fst acc @ concat (map (\<lambda>(j, l). fst (line_findings fname rel j l)) (enumerate i ls)),
          snd acc @ concat (map (\<lambda>(j, l). snd (line_findings fname rel j l)) (enumerate i ls)))"
  by (induction ls arbitrary: i acc)
     (simp_all add: dependency_line_ok split: prod.splits)

lemma dependency_files_ok:
  "dependency_files fname fs acc =
     Inr (fst acc @ concat (map (\<lambda>f. fst (file_findings fname f)) fs),
          snd acc @ concat (map (\<lambda>f. snd (file_findings fname f)) fs))"
  by (induction fs arbitrary: acc)
     (simp_all add: dependency_lines_ok file_findings_def)

definition bleed_findings :: "auditor \<Rightarrow> string list" where
  "bleed_findings a = concat (map (\<lambda>f. fst (file_findings (feature_name a) f)) (files a))"

definition transformer_findings :: "auditor \<Rightarrow> string list" where
  "transformer_findings a = concat (map (\<lambda>f. snd (file_findings (feature_name a) f)) (files a))"

lemma audit_dependencies_ok:
  "audit_dependencies a =
     Inr (if bleed_findings a \<noteq> []
          then a\<lparr> stats := (stats a)\<lparr> dependency_manifest := FAIL,
                                      feature_bleed := bleed_findings a \<rparr>,
                  issues := issues a @ bleed_findings a \<rparr>
          else a,
          transformer_findings a)"
  by (simp add: audit_dependencies_def dependency_files_ok bleed_findings_def
      transformer_findings_def)

definition file_naming_violations :: "source_file \<Rightarrow> string list" where
  "file_naming_violations f =
     (if str_in ''domain'' (rel_path f)
      then map (snake_message f) (snake_findall True (content f)) else [])"

definition file_entities :: "source_file \<Rightarrow> entity list" where
  "file_entities f =
     map (\<lambda>(k, n). \<lparr> e_name = n, e_kind = k, e_file = rel_path f \<rparr>) (entity_findall (content f))"

lemma naming_loop:
  "foldl naming_step (es, nv) fs =
     (es @ concat (map file_entities fs), nv @ concat (map file_naming_violations fs))"
  by (induction fs arbitrary: es nv)
     (simp_all add: naming_step_def file_entities_def file_naming_violations_def)

lemma audit_variable_entity_registry_eq:
  "audit_variable_entity_registry a =
     (if concat (map file_naming_violations (files a)) \<noteq> []
      then a\<lparr> stats := (stats a)\<lparr> naming := FAIL \<rparr>,
              issues := issues a @ concat (map file_naming_violations (files a)) \<rparr>
      else a,
      concat (map file_entities (files a)))"
  by (simp add: audit_variable_entity_registry_def naming_loop)

lemma naming_verdict:
  "naming (stats (fst (audit_variable_entity_registry a))) =
     (if list_ex (\<lambda>g. str_in ''domain'' (rel_path g) \<and> snake_findall True (content g) \<noteq> [])
           (files a)
      then FAIL else naming (stats a))"
proof -
  have "(concat (map file_naming_violations (files a)) = [])
      = (\<not> list_ex (\<lambda>g. str_in ''domain'' (rel_path g) \<and> snake_findall True (content g) \<noteq> [])
            (files a))"
    by (auto simp: file_naming_violations_def list_ex_iff)
  then show ?thesis by (simp add: audit_variable_entity_registry_eq)
qed

section \<open>The state after the four audits\<close>

definition after_naming :: "auditor \<Rightarrow> auditor" where
  "after_naming a = fst (audit_variable_entity_registry a)"

definition after_dependencies :: "auditor \<Rightarrow> auditor" where
  "after_dependencies a =
     (if bleed_findings a \<noteq> []
      then a\<lparr> stats := (stats a)\<lparr> dependency_manifest := FAIL, feature_bleed := bleed_findings a \<rparr>,
              issues := issues a @ bleed_findings a \<rparr>
      else a)"

definition final_auditor :: "auditor \<Rightarrow> auditor" where
  "final_auditor a =
     audit_performance (audit_sacred_mandate (after_dependencies (after_naming a)))"

lemma after_naming_rest:
  "files (after_naming a) = files a"
  "feature_name (after_naming a) = feature_name a"
  "mandate_checks (after_naming a) = mandate_checks a"
  "performance_checks (after_naming a) = performance_checks a"
  by (simp_all add: after_naming_def audit_variable_entity_registry_eq)


lemma transformer_findings_cong:
  "files a = files b \<Longrightarrow> feature_name a = feature_name b
   \<Longrightarrow> transformer_findings a = transformer_findings b"
  by (simp add: transformer_findings_def)

lemma run_audits_ok:
  "run_audits a =
     Inr (final_auditor a, concat (map file_entities (files a)), transformer_findings a)"
proof -
  have t: "transformer_findings (after_naming a) = transformer_findings a"
    by (rule transformer_findings_cong) (simp_all add: after_naming_rest)
  have "audit_dependencies (after_naming a) =
          Inr (after_dependencies (after_naming a), transformer_findings a)"
    unfolding audit_dependencies_ok after_dependencies_def t ..
  then show ?thesis
    by (simp add: run_audits_def final_auditor_def after_naming_def
        audit_variable_entity_registry_eq)
qed



lemma final_auditor_stats:
  "stats (final_auditor a) = stats (after_dependencies (after_naming a))"
  by (simp add: final_auditor_def audit_performance_rest audit_sacred_mandate_rest)

lemma final_auditor_init:
  "final_auditor (init fname) =
     (init fname)\<lparr> mandate_checks := (mandate_checks (init fname))\<lparr> auth_abstraction := PASS \<rparr> \<rparr>"
  by (simp add: final_auditor_def after_naming_def audit_variable_entity_registry_def
      after_dependencies_def bleed_findings_def audit_sacred_mandate_def audit_performance_def
      init_def)

lemma run_audits_init:
  "run_audits (init fname) = Inr (final_auditor (init fname), [], [])"
  by (simp add: run_audits_ok transformer_findings_def) (simp add: init_def)

lemma category_verdicts_never_written:
  "sacred_mandate (stats (final_auditor a)) = sacred_mandate (stats a)
   \<and> performance (stats (final_auditor a)) = performance (stats a)
   \<and> entity_registry (stats (final_auditor a)) = entity_registry (stats a)"
  by (simp add: final_auditor_stats after_dependencies_def after_naming_def
      audit_variable_entity_registry_eq)


section \<open>The scan of the directory and the lines of the report\<close>

definition source_names :: "(string \<times> (string \<times> (py_error + string)) list) list \<Rightarrow> string list" where
  \<comment> \<open>the file names of a walk that \<open>scan_files\<close> reads\<close>
  "source_names w =
     concat (map (\<lambda>(root, es). filter (\<lambda>n. endswith n ''.ts'' \<or> endswith n ''.tsx'') (map fst es)) w)"

lemma scan_dir_no_source:
  "filter (\<lambda>n. endswith n ''.ts'' \<or> endswith n ''.tsx'') (map fst es) = []
   \<Longrightarrow> scan_dir root es fs = Inr fs"
  by (induction es) (auto split: if_splits)

lemma scan_walk_no_source: "source_names w = [] \<Longrightarrow> scan_walk w fs = Inr fs"
  by (induction w) (auto simp: source_names_def scan_dir_no_source)












section \<open>The scan for snake_case properties\<close>

lemma dropWhile_append_keep:
  "dropWhile P xs \<noteq> [] \<Longrightarrow> dropWhile P (xs @ ys) = dropWhile P xs @ ys"
  by (induction xs) (auto split: if_splits)

lemma takeWhile_append_keep:
  "dropWhile P xs \<noteq> [] \<Longrightarrow> takeWhile P (xs @ ys) = takeWhile P xs"
  by (induction xs) (auto split: if_splits)

lemma dropWhile_last:
  "xs \<noteq> [] \<Longrightarrow> \<not> P (last xs) \<Longrightarrow> dropWhile P xs \<noteq> [] \<and> last (dropWhile P xs) = last xs"
  by (induction xs) (auto split: if_splits)

lemma skip_qmark_append: "s \<noteq> [] \<Longrightarrow> skip_qmark (s @ t) = skip_qmark s @ t"
  by (cases s) (simp_all add: skip_qmark_def)

lemma skip_qmark_nonempty: "skip_qmark s \<noteq> [] \<Longrightarrow> s \<noteq> []"
  by (cases s) (simp_all add: skip_qmark_def)

lemma snake_match_append:
  assumes "snake_match s = Some (p, r)"
  shows "snake_match (s @ t) = Some (p, r @ t)"
proof -
  let ?s1 = "dropWhile is_space s"
  from assms have h: "takeWhile is_lower_az ?s1 \<noteq> []"
    by (auto simp: snake_match_def Let_def split: if_splits)
  from assms h obtain s3 where s2: "dropWhile is_lower_az ?s1 = CHR ''_'' # s3"
    by (auto simp: snake_match_def Let_def split: if_splits list.splits)
  from assms h s2 have s6: "dropWhile is_space (skip_qmark (dropWhile is_snake_tail s3)) = CHR '':'' # r"
    and p: "p = takeWhile is_lower_az ?s1 @ CHR ''_'' # takeWhile is_snake_tail s3"
    by (auto simp: snake_match_def Let_def split: if_splits list.splits)
  have s1: "?s1 \<noteq> []"
  proof
    assume "?s1 = []"
    with h show False by simp
  qed
  from s6 have s5: "skip_qmark (dropWhile is_snake_tail s3) \<noteq> []" by auto
  then have s4: "dropWhile is_snake_tail s3 \<noteq> []" by (rule skip_qmark_nonempty)
  have a1: "dropWhile is_space (s @ t) = ?s1 @ t"
    using s1 by (rule dropWhile_append_keep)
  have a2: "dropWhile is_lower_az (?s1 @ t) = CHR ''_'' # s3 @ t"
    using dropWhile_append_keep [of is_lower_az ?s1 t] s2 by simp
  have a2': "takeWhile is_lower_az (?s1 @ t) = takeWhile is_lower_az ?s1"
    using takeWhile_append_keep [of is_lower_az ?s1 t] s2 by simp
  have a3: "dropWhile is_snake_tail (s3 @ t) = dropWhile is_snake_tail s3 @ t"
    using s4 by (rule dropWhile_append_keep)
  have a3': "takeWhile is_snake_tail (s3 @ t) = takeWhile is_snake_tail s3"
    using s4 by (rule takeWhile_append_keep)
  have a4: "skip_qmark (dropWhile is_snake_tail s3 @ t) = skip_qmark (dropWhile is_snake_tail s3) @ t"
    using s4 by (rule skip_qmark_append)
  have a5: "dropWhile is_space (skip_qmark (dropWhile is_snake_tail s3) @ t) = CHR '':'' # r @ t"
    using dropWhile_append_keep [of is_space "skip_qmark (dropWhile is_snake_tail s3)" t] s6 by simp
  show ?thesis
    unfolding snake_match_def Let_def a1 a2 a2' using h by (simp add: a3 a3' a4 a5 p)
qed

lemma snake_match_parts:
  assumes "snake_match s = Some (p, r)"
  shows "\<exists>s3. takeWhile is_lower_az (dropWhile is_space s) \<noteq> []
     \<and> dropWhile is_lower_az (dropWhile is_space s) = CHR ''_'' # s3
     \<and> dropWhile is_space (skip_qmark (dropWhile is_snake_tail s3)) = CHR '':'' # r
     \<and> p = takeWhile is_lower_az (dropWhile is_space s) @ CHR ''_'' # takeWhile is_snake_tail s3"
  using assms by (auto simp: snake_match_def Let_def split: if_splits list.splits)

lemma skip_qmark_suffix: "\<exists>q. s = q @ skip_qmark s"
  by (cases s) (auto simp: skip_qmark_def)

lemma dropWhile_suffix: "\<exists>q. s = q @ dropWhile P s"
  by (metis takeWhile_dropWhile_id)

lemma snake_match_ends_colon:
  assumes "snake_match s = Some (p, r)"
  shows "\<exists>m. s = m @ CHR '':'' # r"
proof -
  from snake_match_parts [OF assms] obtain s3 where
    s2: "dropWhile is_lower_az (dropWhile is_space s) = CHR ''_'' # s3"
    and s6: "dropWhile is_space (skip_qmark (dropWhile is_snake_tail s3)) = CHR '':'' # r"
    by blast
  obtain q1 where q1: "s = q1 @ dropWhile is_space s" using dropWhile_suffix by blast
  obtain q2 where q2: "dropWhile is_space s = q2 @ CHR ''_'' # s3"
    using dropWhile_suffix [of "dropWhile is_space s" is_lower_az] s2 by auto
  obtain q3 where q3: "s3 = q3 @ dropWhile is_snake_tail s3" using dropWhile_suffix by blast
  obtain q4 where q4: "dropWhile is_snake_tail s3 = q4 @ skip_qmark (dropWhile is_snake_tail s3)"
    using skip_qmark_suffix by blast
  obtain q5 where q5: "skip_qmark (dropWhile is_snake_tail s3) = q5 @ CHR '':'' # r"
    using dropWhile_suffix [of "skip_qmark (dropWhile is_snake_tail s3)" is_space] s6 by auto
  have "s = (q1 @ q2 @ CHR ''_'' # q3 @ q4 @ q5) @ CHR '':'' # r"
    using q1 q2 q3 q4 q5 by (metis append.assoc append_Cons)
  then show ?thesis by blast
qed

lemma snake_match_all_space: "list_all is_space s \<Longrightarrow> snake_match s = None"
proof -
  assume "list_all is_space s"
  then have d: "dropWhile is_space s = []" by (simp add: list_all_iff)
  show ?thesis unfolding snake_match_def Let_def d by simp
qed

lemma snake_findall_all_space: "list_all is_space s \<Longrightarrow> snake_findall b s = []"
  by (induction s arbitrary: b) (simp_all add: snake_match_all_space)

lemma snake_match_skip_space: "list_all is_space w \<Longrightarrow> snake_match (w @ y) = snake_match y"
proof -
  assume "list_all is_space w"
  then have d: "dropWhile is_space (w @ y) = dropWhile is_space y"
    by (simp add: list_all_iff)
  show ?thesis unfolding snake_match_def Let_def d ..
qed

lemma dropWhile_append_gone:
  "dropWhile P xs = [] \<Longrightarrow> dropWhile P (xs @ ys) = dropWhile P ys"
  by (induction xs) (auto split: if_splits)

lemma dropWhile_keeps_last:
  "dropWhile P xs \<noteq> [] \<Longrightarrow> last (dropWhile P xs) = last xs"
  by (induction xs) (auto split: if_splits)

lemma skip_qmark_last:
  "s \<noteq> [] \<Longrightarrow> last s \<noteq> CHR ''?'' \<Longrightarrow> skip_qmark s \<noteq> [] \<and> last (skip_qmark s) = last s"
  by (cases s) (auto simp: skip_qmark_def split: if_splits)

lemma append_eq_Cons_nonempty: "xs \<noteq> [] \<Longrightarrow> xs @ ys = a # zs \<Longrightarrow> \<exists>ws. xs = a # ws \<and> zs = ws @ ys"
  by (cases xs) auto

lemma snake_match_crossing:
  assumes none: "snake_match pre = None"
    and ne: "pre \<noteq> []" and nl: "last pre = CHR 0x0A"
    and some: "snake_match (pre @ y) = Some (p, r)"
    and y: "dropWhile is_space y = c # y'" and c: "is_lower_az c"
  shows "dropWhile is_space pre = []"
proof (rule ccontr)
  let ?s1 = "dropWhile is_space pre"
  assume s1: "?s1 \<noteq> []"
  have nlo: "\<not> is_lower_az (CHR 0x0A)" by (simp add: is_lower_az_def)
  have ntl: "\<not> is_snake_tail (CHR 0x0A)" by (simp add: is_snake_tail_def is_lower_az_def)
  have l1: "last ?s1 = CHR 0x0A" using dropWhile_keeps_last [OF s1] nl by simp
  have a1: "dropWhile is_space (pre @ y) = ?s1 @ y" using s1 by (rule dropWhile_append_keep)
  from snake_match_parts [OF some] obtain s3' where
    t: "takeWhile is_lower_az (?s1 @ y) \<noteq> []"
    and d: "dropWhile is_lower_az (?s1 @ y) = CHR ''_'' # s3'"
    and e: "dropWhile is_space (skip_qmark (dropWhile is_snake_tail s3')) = CHR '':'' # r"
    unfolding a1 by blast
  let ?s2 = "dropWhile is_lower_az ?s1"
  have s2: "?s2 \<noteq> []" and l2: "last ?s2 = CHR 0x0A"
    using dropWhile_last [of ?s1 is_lower_az] s1 l1 nlo by simp_all
  have t': "takeWhile is_lower_az ?s1 \<noteq> []"
    using t takeWhile_append_keep [OF s2, of y] by simp
  have "?s2 @ y = CHR ''_'' # s3'"
    using d dropWhile_append_keep [OF s2, of y] by simp
  from append_eq_Cons_nonempty [OF s2 this] obtain s3 where
    d': "?s2 = CHR ''_'' # s3" and s3': "s3' = s3 @ y" by blast
  have s3: "s3 \<noteq> []"
  proof
    assume "s3 = []"
    with d' l2 show False by simp
  qed
  have l3: "last s3 = CHR 0x0A" using d' l2 s3 by simp
  let ?s4 = "dropWhile is_snake_tail s3"
  have s4: "?s4 \<noteq> []" and l4: "last ?s4 = CHR 0x0A"
    using dropWhile_last [of s3 is_snake_tail] s3 l3 ntl by simp_all
  let ?s5 = "skip_qmark ?s4"
  have s5: "?s5 \<noteq> []" and l5: "last ?s5 = CHR 0x0A"
    using skip_qmark_last [of ?s4] s4 l4 by simp_all
  have e': "dropWhile is_space (?s5 @ y) = CHR '':'' # r"
    using e unfolding s3' dropWhile_append_keep [OF s4] skip_qmark_append [OF s4] .
  show False
  proof (cases "dropWhile is_space ?s5 = []")
    case True
    from e' have "dropWhile is_space y = CHR '':'' # r"
      unfolding dropWhile_append_gone [OF True] .
    with y have "c = CHR '':''" by simp
    moreover have "\<not> is_lower_az (CHR '':'')" by (simp add: is_lower_az_def)
    ultimately show False using c by simp
  next
    case False
    from e' have "dropWhile is_space ?s5 @ y = CHR '':'' # r"
      unfolding dropWhile_append_keep [OF False] .
    from append_eq_Cons_nonempty [OF False this] obtain r0 where
      r0: "dropWhile is_space ?s5 = CHR '':'' # r0" by blast
    have "snake_match pre \<noteq> None"
      unfolding snake_match_def Let_def d' using t' by (simp add: r0)
    with none show False by simp
  qed
qed

lemma takeWhile_nonempty_head: "takeWhile P xs \<noteq> [] \<Longrightarrow> \<exists>c t. xs = c # t \<and> P c"
  by (cases xs) (auto split: if_splits)

lemma snake_match_Nil: "snake_match [] = None"
  by (simp add: snake_match_def)

lemma snake_findall_line:
  assumes m: "snake_match body = Some (p, rest)"
  shows "(pre = [] \<longrightarrow> bol) \<Longrightarrow> (pre \<noteq> [] \<longrightarrow> last pre = CHR 0x0A)
     \<Longrightarrow> snake_findall bol (pre @ body) = snake_findall bol pre @ p # snake_findall False rest"
proof (induction bol pre rule: snake_findall.induct)
  case (1 bol)
  then have b: "bol" by simp
  obtain c cs where tx: "body = c # cs"
    using m snake_match_Nil by (cases body) auto
  show ?case using b m by (simp add: tx)
next
  case (2 bol c cs)
  from snake_match_parts [OF m] obtain c0 t0 where
    y: "dropWhile is_space body = c0 # t0" and c0: "is_lower_az c0"
    using takeWhile_nonempty_head by blast
  have nl: "last (c # cs) = CHR 0x0A" using 2 by simp
  show ?case
  proof (cases "if bol then snake_match (c # cs) else None")
    case (Some x)
    obtain q r where x: "x = (q, r)" by (cases x)
    from Some x have bol: bol and ms: "snake_match (c # cs) = Some (q, r)"
      by (simp_all split: if_splits)
    from snake_match_ends_colon [OF ms] obtain mm where mm: "c # cs = mm @ CHR '':'' # r"
      by blast
    have r: "r \<noteq> []"
    proof
      assume "r = []"
      with mm nl show False by simp
    qed
    have lr: "last r = CHR 0x0A" using mm nl r by (metis last_ConsR last_appendR list.distinct(1))
    have "snake_findall False (r @ body) = snake_findall False r @ p # snake_findall False rest"
      using "2.IH"(2) [OF Some x [symmetric]] r lr by simp
    moreover have "snake_match ((c # cs) @ body) = Some (q, r @ body)"
      using ms by (rule snake_match_append)
    ultimately show ?thesis using bol ms by simp
  next
    case None
    have ih: "snake_findall (c = CHR 0x0A) (cs @ body)
        = snake_findall (c = CHR 0x0A) cs @ p # snake_findall False rest"
      using "2.IH"(1) [OF None] nl by (cases cs) simp_all
    show ?thesis
    proof (cases "bol \<and> snake_match ((c # cs) @ body) \<noteq> None")
      case True
      then obtain q r where cross: "snake_match ((c # cs) @ body) = Some (q, r)" by auto
      from True None have none: "snake_match (c # cs) = None" by simp
      have d: "dropWhile is_space (c # cs) = []"
        using none _ nl cross y c0 by (rule snake_match_crossing) simp
      then have sp: "list_all is_space (c # cs)"
        by (simp only: dropWhile_eq_Nil_conv list_all_iff)
      have "snake_match ((c # cs) @ body) = Some (p, rest)"
        using snake_match_skip_space [OF sp] m by simp
      moreover have "snake_findall bol (c # cs) = []"
        using sp by (rule snake_findall_all_space)
      ultimately show ?thesis using True by simp
    next
      case False
      have "(if bol then snake_match (c # cs @ body) else None) = None"
      proof (cases bol)
        case True
        with False have "snake_match ((c # cs) @ body) = None" by blast
        then show ?thesis by simp
      next
        case False
        then show ?thesis by simp
      qed
      then have "snake_findall bol ((c # cs) @ body) = snake_findall (c = CHR 0x0A) (cs @ body)"
        by simp
      moreover have "snake_findall bol (c # cs) = snake_findall (c = CHR 0x0A) cs"
        using None by simp
      ultimately show ?thesis using ih by simp
    qed
  qed
qed

lemma takeWhile_run: "\<forall>x\<in>set xs. P x \<Longrightarrow> \<not> P y \<Longrightarrow> takeWhile P (xs @ y # ys) = xs"
  by (induction xs) simp_all

lemma dropWhile_run: "\<forall>x\<in>set xs. P x \<Longrightarrow> \<not> P y \<Longrightarrow> dropWhile P (xs @ y # ys) = y # ys"
  by (induction xs) simp_all

lemma blank_is_space:
  assumes "set w \<subseteq> {CHR '' '', CHR 0x09}"
  shows "\<forall>x\<in>set w. is_space x"
proof -
  have "is_space (CHR '' '')" and "is_space (CHR 0x09)" by (simp_all add: is_space_def)
  with assms show ?thesis by blast
qed

lemma lower_az_no_space: "list_all (\<lambda>c. \<not> is_space c) ''abcdefghijklmnopqrstuvwxyz''"
  by code_simp

lemma lower_az_not_space:
  assumes "is_lower_az c"
  shows "\<not> is_space c"
proof -
  have "\<forall>x\<in>set ''abcdefghijklmnopqrstuvwxyz''. \<not> is_space x"
    using lower_az_no_space unfolding list_all_iff .
  with assms show ?thesis unfolding is_lower_az_def by blast
qed

lemma snake_tail_chars:
  assumes "set b \<subseteq> set ''abcdefghijklmnopqrstuvwxyz0123456789_''"
  shows "\<forall>x\<in>set b. is_snake_tail x"
proof -
  have e: "''abcdefghijklmnopqrstuvwxyz0123456789_'' = ''abcdefghijklmnopqrstuvwxyz'' @ ''0123456789_''"
    by simp
  from assms have "set b \<subseteq> set ''abcdefghijklmnopqrstuvwxyz'' \<union> set ''0123456789_''"
    unfolding e set_append .
  then show ?thesis unfolding is_snake_tail_def is_lower_az_def by blast
qed

lemma snake_match_after_name:
  assumes q: "q = [] \<or> q = ''?''" and gap: "set gap \<subseteq> {CHR '' '', CHR 0x09}"
  shows "\<exists>y ys. q @ gap @ CHR '':'' # rest = y # ys \<and> \<not> is_snake_tail y
     \<and> dropWhile is_space (skip_qmark (q @ gap @ CHR '':'' # rest)) = CHR '':'' # rest"
proof -
  have sp: "\<forall>x\<in>set gap. is_space x" using gap by (rule blank_is_space)
  have c: "\<not> is_space (CHR '':'')" by (simp add: is_space_def)
  have d: "dropWhile is_space (gap @ CHR '':'' # rest) = CHR '':'' # rest"
    using sp c by (rule dropWhile_run)
  from q show ?thesis
  proof
    assume q0: "q = []"
    show ?thesis
    proof (cases gap)
      case Nil
      then show ?thesis
        using q0 c by (simp add: skip_qmark_def is_snake_tail_def is_lower_az_def)
    next
      case (Cons g gs)
      then have g: "g = CHR '' '' \<or> g = CHR 0x09" using gap by simp
      then have "\<not> is_snake_tail g \<and> g \<noteq> CHR ''?''"
        by (auto simp: is_snake_tail_def is_lower_az_def)
      moreover have "dropWhile is_space (g # gs @ CHR '':'' # rest) = CHR '':'' # rest"
        using d Cons by simp
      ultimately show ?thesis using q0 Cons by (simp add: skip_qmark_def)
    qed
  next
    assume q1: "q = ''?''"
    have "\<not> is_snake_tail (CHR ''?'')" by (simp add: is_snake_tail_def is_lower_az_def)
    then show ?thesis using q1 d by (simp add: skip_qmark_def)
  qed
qed

lemma snake_match_line:
  assumes ind: "set indent \<subseteq> {CHR '' '', CHR 0x09}"
    and a: "a \<noteq> []" "set a \<subseteq> set ''abcdefghijklmnopqrstuvwxyz''"
    and b: "set b \<subseteq> set ''abcdefghijklmnopqrstuvwxyz0123456789_''"
    and q: "q = [] \<or> q = ''?''"
    and gap: "set gap \<subseteq> {CHR '' '', CHR 0x09}"
  shows "snake_match (indent @ (a @ CHR ''_'' # b) @ q @ gap @ CHR '':'' # rest)
     = Some (a @ CHR ''_'' # b, rest)"
proof -
  let ?Y = "q @ gap @ CHR '':'' # rest"
  from snake_match_after_name [OF q gap, of rest] obtain y ys where
    y: "?Y = y # ys" and ny: "\<not> is_snake_tail y"
    and e: "dropWhile is_space (skip_qmark ?Y) = CHR '':'' # rest"
    by blast
  have lo: "\<forall>x\<in>set a. is_lower_az x" using a(2) unfolding is_lower_az_def by blast
  have tl: "\<forall>x\<in>set b. is_snake_tail x" using b by (rule snake_tail_chars)
  obtain a0 a1 where a01: "a = a0 # a1" using a(1) by (cases a) auto
  have "is_lower_az a0" using lo a01 by simp
  then have ns: "\<not> is_space a0" by (rule lower_az_not_space)
  have "dropWhile is_space (indent @ a0 # (a1 @ CHR ''_'' # b @ ?Y)) = a0 # (a1 @ CHR ''_'' # b @ ?Y)"
    using blank_is_space [OF ind] ns by (rule dropWhile_run)
  then have d1: "dropWhile is_space (indent @ (a @ CHR ''_'' # b) @ ?Y) = a @ CHR ''_'' # (b @ ?Y)"
    by (simp add: a01)
  have nu: "\<not> is_lower_az (CHR ''_'')" by (simp add: is_lower_az_def)
  have t2: "takeWhile is_lower_az (a @ CHR ''_'' # (b @ ?Y)) = a"
    using lo nu by (rule takeWhile_run)
  have d2: "dropWhile is_lower_az (a @ CHR ''_'' # (b @ ?Y)) = CHR ''_'' # (b @ ?Y)"
    using lo nu by (rule dropWhile_run)
  have t3: "takeWhile is_snake_tail (b @ ?Y) = b"
    unfolding y using tl ny by (rule takeWhile_run)
  have d3: "dropWhile is_snake_tail (b @ ?Y) = ?Y"
    unfolding y using tl ny by (rule dropWhile_run)
  show ?thesis
    unfolding snake_match_def Let_def d1 t2 d2 using a(1) by (simp only: list.case t3 d3 e) simp
qed

lemma snake_findall_no_newline: "CHR 0x0A \<notin> set r \<Longrightarrow> snake_findall False r = []"
proof (induction r)
  case Nil
  show ?case by simp
next
  case (Cons c r)
  then have "(c = CHR 0x0A) = False" by auto
  with Cons show ?case by simp
qed

lemma snake_findall_next_line:
  "CHR 0x0A \<notin> set r \<Longrightarrow> snake_findall False (r @ CHR 0x0A # t) = snake_findall True t"
proof (induction r)
  case Nil
  show ?case by simp
next
  case (Cons c r)
  then have "(c = CHR 0x0A) = False" by auto
  with Cons show ?case by simp
qed

lemma snake_findall_rest_of_line:
  assumes "CHR 0x0A \<notin> set r" and "post = [] \<or> hd post = CHR 0x0A"
  shows "snake_findall False (r @ post) = snake_findall True (tl post)"
proof (cases post)
  case Nil
  then show ?thesis using assms(1) by (simp add: snake_findall_no_newline)
next
  case (Cons c t)
  with assms(2) have "c = CHR 0x0A" by simp
  then show ?thesis using Cons assms(1) by (simp add: snake_findall_next_line)
qed

section \<open>The claims\<close>

text \<open>
  C1. The claim: every category verdict of the report is FAIL if and only if a finding was
  recorded for the category; in particular a finding of the auth-abstraction check makes
  the sacred-mandate verdict FAIL, and a finding of the watch() check makes the
  performance verdict FAIL. The code writes \<open>stats['naming']\<close> and
  \<open>stats['dependency_manifest']\<close> when their checks find something, and never writes
  \<open>stats['sacred_mandate']\<close> or \<open>stats['performance']\<close>. For the feature \<open>billing\<close>
  with the one file \<open>form_file\<close> both sub-checks record a finding and set their own
  verdict to FAIL, and both category verdicts are still PASS.
\<close>

theorem category_verdicts_stay_pass:
  "(case run_audits ((init ''billing'')\<lparr> files := [form_file] \<rparr>) of
      Inl e \<Rightarrow> False
    | Inr (a, es, ts) \<Rightarrow>
        issues a = [auth_message form_file, watch_message form_file]
        \<and> auth_abstraction (mandate_checks a) = FAIL
        \<and> react_compiler (performance_checks a) = FAIL
        \<and> sacred_mandate (stats a) = PASS
        \<and> performance (stats a) = PASS)"
  by code_simp

text \<open>
  C2. The claim: when the feature directory is missing or unreadable the run fails as a
  fatal error and no report file is written. \<open>os.walk\<close> ignores the error of listing its
  top directory and yields nothing, so for the feature \<open>billing\<close> of a project without any
  feature directory the run writes a report to \<open>docs/documentation/audit-billing.md\<close>.
\<close>

theorem missing_directory_counterexample:
  "(case main [''audit_feature.py'', ''billing''] no_feature_world of
      Report_Written p r \<Rightarrow> p = ''docs/documentation/audit-billing.md''
    | _ \<Rightarrow> False)"
  by code_simp

text \<open>
  C2, as amended: when the feature directory is missing or cannot be listed, the scan finds
  no file and the run does not fail on that account: the report of the empty file set, with
  no finding, is written to \<open>docs/documentation/audit-<name>.md\<close>. Only when the output
  path cannot be written the run fails, and then nothing is written.
\<close>

theorem missing_directory_report_written:
  assumes "feature_dir w fname = None \<or> (\<exists>e. feature_dir w fname = Some (FsDir (Inl e)))"
  shows "main (prog # fname # rest) w =
     (if docs_writable w
      then Report_Written (''docs/documentation/audit-'' @ fname @ ''.md'')
             (join [CHR 0x0A] (report_lines (date_today w) (final_auditor (init fname)) [] []))
      else Fatal OSError)
     \<and> files (final_auditor (init fname)) = []
     \<and> issues (final_auditor (init fname)) = []"
proof -
  have "walk_feature fname (feature_dir w fname) = []"
    using assms by (auto simp: walk_feature_def)
  then have "scan_files (feature_dir w fname) (init fname) = Inr (init fname)"
    by (simp add: scan_files_def init_def)
  moreover have "files (final_auditor (init fname)) = []"
    and "issues (final_auditor (init fname)) = []"
    unfolding final_auditor_init by (simp_all add: init_def)
  ultimately show ?thesis
    by (simp add: main_def generate_markdown_def run_audits_init)
qed

text \<open>C2, as amended, on the project without any feature directory.\<close>

theorem missing_directory_report_written_witness:
  "main [''audit_feature.py'', ''billing''] no_feature_world =
     Report_Written ''docs/documentation/audit-billing.md''
       (join [CHR 0x0A] (report_lines ''2026-01-01'' (final_auditor (init ''billing'')) [] []))
   \<and> files (final_auditor (init ''billing'')) = []
   \<and> issues (final_auditor (init ''billing'')) = []"
proof -
  have h: "feature_dir no_feature_world ''billing'' = None
     \<or> (\<exists>e. feature_dir no_feature_world ''billing'' = Some (FsDir (Inl e)))"
    by (simp add: no_feature_world_def)
  from missing_directory_report_written [OF h, of "''audit_feature.py''" "[]"]
  show ?thesis by (simp add: no_feature_world_def)
qed

text \<open>
  C3. The claim: the soft-delete verdict is WARNING when a repository-path file that
  mentions delete has neither marker, PASS when such files exist and each has a marker,
  and N/A when there is no such file. The code sets \<open>has_delete\<close> only where it records a
  violation, so its PASS branch is never taken: for the one file \<open>repo_file\<close>, which is in
  a repository path, mentions delete and contains \<open>deleted_at\<close>, the verdict is N/A.
\<close>

theorem soft_deletes_not_pass:
  "str_in ''delete'' (lower (content repo_file))
   \<and> str_in ''repository'' (rel_path repo_file)
   \<and> str_in ''deleted_at'' (content repo_file)
   \<and> soft_deletes (mandate_checks (audit_sacred_mandate ((init ''billing'')\<lparr> files := [repo_file] \<rparr>)))
       = NA"
  by code_simp

text \<open>
  C4. The claim: the integer-cents verdict is N/A if and only if no file mentions a
  financial term; otherwise it is FAIL if and only if some file has both \<open>number\<close> and
  float or double, even a file without a financial term. The code looks for float usage
  only inside the branch of a file that mentions a financial term. With \<open>account_file\<close>
  (a financial term, no float) and \<open>chart_file\<close> (\<open>number\<close> and \<open>float\<close>, no financial
  term) the check applies, a file has \<open>number\<close> and \<open>float\<close>, and the verdict is PASS.
\<close>

theorem integer_cents_counterexample:
  "list_ex has_financial_term [account_file, chart_file]
   \<and> list_ex has_float_usage [account_file, chart_file]
   \<and> integer_cents (mandate_checks (audit_sacred_mandate
         ((init ''billing'')\<lparr> files := [account_file, chart_file] \<rparr>))) = PASS"
  by code_simp

text \<open>
  C4, as amended: the verdict is N/A if and only if no file mentions a financial term;
  otherwise it is FAIL if and only if some file that mentions a financial term has both
  \<open>number\<close> and float or double in it, and PASS otherwise.
\<close>

theorem integer_cents_verdict:
  "integer_cents (mandate_checks (audit_sacred_mandate ((init fname)\<lparr> files := fs \<rparr>))) =
     (if list_ex has_financial_term fs
      then (if list_ex (\<lambda>f. has_financial_term f \<and> has_float_usage f) fs then FAIL else PASS)
      else NA)"
  by (simp add: audit_sacred_mandate_checks init_def)

text \<open>
  C5. The auth-abstraction check always gives a verdict: FAIL if and only if the feature is
  not named \<open>auth\<close> and some file contains \<open>supabase.auth.\<close>, PASS otherwise, so PASS for
  the feature \<open>auth\<close> whatever its files contain. It records one finding for each such
  file, in the order of the files, after the findings of the two checks before it.
\<close>

theorem auth_abstraction_verdict:
  "auth_abstraction (mandate_checks (audit_sacred_mandate a)) =
     (if feature_name a \<noteq> ''auth''
         \<and> list_ex (\<lambda>f. str_in ''supabase.auth.'' (content f)) (files a)
      then FAIL else PASS)
   \<and> auth_abstraction (mandate_checks (audit_sacred_mandate a)) \<noteq> NA
   \<and> auth_abstraction (mandate_checks (audit_sacred_mandate (a\<lparr> feature_name := ''auth'' \<rparr>)))
       = PASS
   \<and> foldl (auth_step (feature_name a)) [] (files a) =
       (if feature_name a \<noteq> ''auth''
        then map auth_message (filter (\<lambda>f. str_in ''supabase.auth.'' (content f)) (files a))
        else [])
   \<and> issues (audit_sacred_mandate a) =
       issues a
       @ map float_message (filter (\<lambda>f. has_financial_term f \<and> has_float_usage f) (files a))
       @ map delete_message (filter hard_delete_suspect (files a))
       @ foldl (auth_step (feature_name a)) [] (files a)"
  by (simp add: audit_sacred_mandate_checks audit_sacred_mandate_issues auth_loop)

text \<open>
  C6. The claim: an import line whose quoted path starts with \<open>@/features/\<close> or
  \<open>../../features/\<close> and whose path segment after \<open>features/\<close> differs from the audited
  feature and from \<open>shared\<close> gives exactly one feature-bleed finding. The code takes the
  segment as \<open>path_str.split("features/")[1].split("/")[0]\<close>, which cuts a segment that
  ends in \<open>features\<close>: for the feature \<open>billing\<close> and the one-line file \<open>import_file\<close>
  the segment is \<open>sharedfeatures\<close>, the code computes \<open>shared\<close>, and no finding is
  recorded: the auditor is returned unchanged.
\<close>

theorem feature_bleed_missed:
  "line_content import_file
     = [''import { Table } from '' @ [CHR 0x22] @ ''@/features/sharedfeatures/table'' @ [CHR 0x22] @ '';'']
   \<and> startswith (dropWhile is_space (line_content import_file ! 0)) ''import ''
   \<and> from_search (line_content import_file ! 0) = Some ''@/features/sharedfeatures/table''
   \<and> takeWhile (\<lambda>c. c \<noteq> CHR ''/'') (drop (length ''@/features/'') ''@/features/sharedfeatures/table'')
       = ''sharedfeatures''
   \<and> target_feature ''@/features/sharedfeatures/table'' = Inr ''shared''
   \<and> audit_dependencies ((init ''billing'')\<lparr> files := [import_file] \<rparr>)
       = Inr ((init ''billing'')\<lparr> files := [import_file] \<rparr>, [])"
  by code_simp

text \<open>
  C7. In a file whose relative path contains \<open>domain\<close>, a line is the text that starts at
  the start of the content or after a newline and ends before the next newline or at the end
  of the content. Take a line that consists of an indentation of spaces and tabs, an
  identifier made of one or more lowercase letters, an underscore and then any lowercase
  letters, digits and underscores, then nothing or \<open>?\<close>, then spaces and tabs, then a
  colon and any text. The line gives exactly one naming violation, which names the whole
  identifier: the violations of the file are those of the text before the line, then this
  one, then those of the text after the line. Its message is
  \<open>Snake_case property '<name>' in domain file <relative path>\<close>, it is among the issues,
  and the naming verdict is FAIL; over a feature the verdict is FAIL if some domain file has
  a match and PASS otherwise.
\<close>

theorem snake_case_property_reported:
  assumes dom: "str_in ''domain'' (rel_path f)"
    and split: "content f = pre @ line @ post"
    and start: "pre = [] \<or> last pre = CHR 0x0A"
    and fin: "post = [] \<or> hd post = CHR 0x0A"
    and line: "line = indent @ ident @ q @ gap @ CHR '':'' # rest"
    and ident: "ident = a @ CHR ''_'' # b"
    and a: "a \<noteq> []" "set a \<subseteq> set ''abcdefghijklmnopqrstuvwxyz''"
    and b: "set b \<subseteq> set ''abcdefghijklmnopqrstuvwxyz0123456789_''"
    and q: "q = [] \<or> q = ''?''"
    and ind: "set indent \<subseteq> {CHR '' '', CHR 0x09}"
    and gap: "set gap \<subseteq> {CHR '' '', CHR 0x09}"
    and rest: "CHR 0x0A \<notin> set rest"
    and mem: "f \<in> set (files au)"
  shows "snd (naming_step (es, nv) f)
       = nv @ map (snake_message f) (snake_findall True pre)
         @ snake_message f ident # map (snake_message f) (snake_findall True (tl post))
     \<and> snake_message f ident
       = ''Snake_case property '' @ [CHR 0x27] @ ident @ [CHR 0x27] @ '' in domain file '' @ rel_path f
     \<and> naming (stats (fst (audit_variable_entity_registry au))) = FAIL
     \<and> snake_message f ident \<in> set (issues (fst (audit_variable_entity_registry au)))
     \<and> naming (stats (fst (audit_variable_entity_registry ((init fname)\<lparr> files := fs \<rparr>))))
       = (if list_ex (\<lambda>g. str_in ''domain'' (rel_path g) \<and> snake_findall True (content g) \<noteq> []) fs
          then FAIL else PASS)"
proof -
  have m: "snake_match line = Some (ident, rest)"
    unfolding line ident using ind a b q gap by (rule snake_match_line)
  have "snake_match (line @ post) = Some (ident, rest @ post)"
    using m by (rule snake_match_append)
  from snake_findall_line [OF this, of pre True] start
  have "snake_findall True (content f)
      = snake_findall True pre @ ident # snake_findall False (rest @ post)"
    unfolding split by auto
  then have fa: "snake_findall True (content f)
      = snake_findall True pre @ ident # snake_findall True (tl post)"
    unfolding snake_findall_rest_of_line [OF rest fin] .
  have c1: "snd (naming_step (es, nv) f)
       = nv @ map (snake_message f) (snake_findall True pre)
         @ snake_message f ident # map (snake_message f) (snake_findall True (tl post))"
    using dom by (simp add: naming_step_def fa)
  have c2: "snake_message f ident
       = ''Snake_case property '' @ [CHR 0x27] @ ident @ [CHR 0x27] @ '' in domain file '' @ rel_path f"
    by (simp add: snake_message_def)
  have v: "snake_message f ident \<in> set (file_naming_violations f)"
    using dom by (simp add: file_naming_violations_def fa)
  then have vs: "snake_message f ident \<in> set (concat (map file_naming_violations (files au)))"
    using mem by auto
  then have ne: "concat (map file_naming_violations (files au)) \<noteq> []"
    by (metis empty_iff empty_set)
  have c3: "naming (stats (fst (audit_variable_entity_registry au))) = FAIL"
    unfolding audit_variable_entity_registry_eq using ne by simp
  have c4: "snake_message f ident \<in> set (issues (fst (audit_variable_entity_registry au)))"
    unfolding audit_variable_entity_registry_eq using ne vs by simp
  have c5: "naming (stats (fst (audit_variable_entity_registry ((init fname)\<lparr> files := fs \<rparr>))))
       = (if list_ex (\<lambda>g. str_in ''domain'' (rel_path g) \<and> snake_findall True (content g) \<noteq> []) fs
          then FAIL else PASS)"
    unfolding naming_verdict by (simp add: init_def)
  from c1 c2 c3 c4 c5 show ?thesis by blast
qed


text \<open>
  C7 on \<open>user_file\<close>, a domain file that declares \<open>user_id: string\<close> on its second
  line and \<open>created_at?: Date\<close> on its third: the naming check is FAIL and its two
  findings name \<open>user_id\<close> and \<open>created_at\<close> and the path of the file.
\<close>

theorem snake_case_property_reported_witness:
  "str_in ''domain'' (rel_path user_file)
   \<and> content user_file
       = (''export interface User {'' @ [CHR 0x0A] @ ''  user_id: string;'' @ [CHR 0x0A])
         @ (''  '' @ (''created'' @ CHR ''_'' # ''at'') @ ''?'' @ [] @ CHR '':'' # '' Date;'')
         @ (CHR 0x0A # ''}'')
   \<and> content user_file
       = (''export interface User {'' @ [CHR 0x0A])
         @ (''  '' @ (''user'' @ CHR ''_'' # ''id'') @ [] @ [] @ CHR '':'' # '' string;'')
         @ (CHR 0x0A # ''  created_at?: Date;'' @ [CHR 0x0A] @ ''}'')
   \<and> snake_message user_file ''user_id''
       = ''Snake_case property '' @ [CHR 0x27] @ ''user_id'' @ [CHR 0x27]
         @ '' in domain file features/billing/domain/user.ts''
   \<and> snake_message user_file ''created_at''
       = ''Snake_case property '' @ [CHR 0x27] @ ''created_at'' @ [CHR 0x27]
         @ '' in domain file features/billing/domain/user.ts''
   \<and> snd (naming_step ([], []) user_file)
       = [snake_message user_file ''user_id'', snake_message user_file ''created_at'']
   \<and> naming (stats (fst (audit_variable_entity_registry
         ((init ''billing'')\<lparr> files := [user_file] \<rparr>)))) = FAIL
   \<and> snake_message user_file ''user_id''
       \<in> set (issues (fst (audit_variable_entity_registry
                ((init ''billing'')\<lparr> files := [user_file] \<rparr>))))
   \<and> snake_message user_file ''created_at''
       \<in> set (issues (fst (audit_variable_entity_registry
                ((init ''billing'')\<lparr> files := [user_file] \<rparr>))))"
proof -
  let ?pre1 = "''export interface User {'' @ [CHR 0x0A]"
  let ?post1 = "CHR 0x0A # ''  created_at?: Date;'' @ [CHR 0x0A] @ ''}''"
  let ?pre2 = "''export interface User {'' @ [CHR 0x0A] @ ''  user_id: string;'' @ [CHR 0x0A]"
  let ?post2 = "CHR 0x0A # ''}''"
  have dom: "str_in ''domain'' (rel_path user_file)" by code_simp
  have mem: "user_file \<in> set (files ((init ''billing'')\<lparr> files := [user_file] \<rparr>))" by simp
  have ind: "set ''  '' \<subseteq> {CHR '' '', CHR 0x09}" by simp
  have gap: "set [] \<subseteq> {CHR '' '', CHR 0x09}" by simp
  have s1: "content user_file
       = ?pre1 @ (''  '' @ (''user'' @ CHR ''_'' # ''id'') @ [] @ [] @ CHR '':'' # '' string;'') @ ?post1"
    by (simp add: user_file_def make_file_def)
  have s2: "content user_file
       = ?pre2 @ (''  '' @ (''created'' @ CHR ''_'' # ''at'') @ ''?'' @ [] @ CHR '':'' # '' Date;'')
         @ ?post2"
    by (simp add: user_file_def make_file_def)
  have st1: "?pre1 = [] \<or> last ?pre1 = CHR 0x0A" by simp
  have st2: "?pre2 = [] \<or> last ?pre2 = CHR 0x0A" by simp
  have f1: "?post1 = [] \<or> hd ?post1 = CHR 0x0A" by simp
  have f2: "?post2 = [] \<or> hd ?post2 = CHR 0x0A" by simp
  have a1: "''user'' \<noteq> []" "set ''user'' \<subseteq> set ''abcdefghijklmnopqrstuvwxyz''" by simp_all
  have a2: "''created'' \<noteq> []" "set ''created'' \<subseteq> set ''abcdefghijklmnopqrstuvwxyz''"
    by simp_all
  have b1: "set ''id'' \<subseteq> set ''abcdefghijklmnopqrstuvwxyz0123456789_''" by simp
  have b2: "set ''at'' \<subseteq> set ''abcdefghijklmnopqrstuvwxyz0123456789_''" by simp
  have q1: "[] = [] \<or> [] = ''?''" by simp
  have q2: "''?'' = [] \<or> ''?'' = ''?''" by simp
  have r1: "CHR 0x0A \<notin> set '' string;''" by simp
  have r2: "CHR 0x0A \<notin> set '' Date;''" by simp
  have n1: "''user'' @ CHR ''_'' # ''id'' = ''user_id''" by simp
  have n2: "''created'' @ CHR ''_'' # ''at'' = ''created_at''" by simp
  note t1 = snake_case_property_reported [where es = "[]" and nv = "[]" and fname = "''billing''"
      and fs = "[user_file]", OF dom s1 st1 f1 refl refl a1 b1 q1 ind gap r1 mem, unfolded n1]
  note t2 = snake_case_property_reported [where es = "[]" and nv = "[]" and fname = "''billing''"
      and fs = "[user_file]", OF dom s2 st2 f2 refl refl a2 b2 q2 ind gap r2 mem, unfolded n2]
  have e1: "snake_findall True ?pre2 = [''user_id'']" by code_simp
  have e2: "snake_findall True (tl ?post2) = []" by code_simp
  have l1: "snake_message user_file ''user_id''
       = ''Snake_case property '' @ [CHR 0x27] @ ''user_id'' @ [CHR 0x27]
         @ '' in domain file features/billing/domain/user.ts''"
    by code_simp
  have l2: "snake_message user_file ''created_at''
       = ''Snake_case property '' @ [CHR 0x27] @ ''created_at'' @ [CHR 0x27]
         @ '' in domain file features/billing/domain/user.ts''"
    by code_simp
  from t2 have c1: "snd (naming_step ([], []) user_file)
       = [snake_message user_file ''user_id'', snake_message user_file ''created_at'']"
    unfolding e1 e2 by simp
  from t1 have c3: "naming (stats (fst (audit_variable_entity_registry
         ((init ''billing'')\<lparr> files := [user_file] \<rparr>)))) = FAIL"
    by blast
  from t1 have c4: "snake_message user_file ''user_id''
       \<in> set (issues (fst (audit_variable_entity_registry
                ((init ''billing'')\<lparr> files := [user_file] \<rparr>))))"
    by blast
  from t2 have c5: "snake_message user_file ''created_at''
       \<in> set (issues (fst (audit_variable_entity_registry
                ((init ''billing'')\<lparr> files := [user_file] \<rparr>))))"
    by blast
  from dom s1 s2 l1 l2 c1 c3 c4 c5 show ?thesis by blast
qed

text \<open>
  C8. When the walk of the feature directory meets no file whose name ends in \<open>.ts\<close> or
  \<open>.tsx\<close>, the scan succeeds with an empty file list, so the file inventory of the report
  is empty; the audits record no finding, and every category and sub-check verdict is PASS
  or N/A.
\<close>

theorem no_source_files_clean_report:
  assumes "source_names (walk_feature fname d) = []"
  shows "\<exists>a a'. scan_files d (init fname) = Inr a
     \<and> files a = [] \<and> files_by_folder (files a) = []
     \<and> run_audits a = Inr (a', [], [])
     \<and> issues a' = [] \<and> feature_bleed (stats a') = []
     \<and> naming (stats a') = PASS \<and> entity_registry (stats a') = PASS
     \<and> dependency_manifest (stats a') = PASS \<and> sacred_mandate (stats a') = PASS
     \<and> performance (stats a') = PASS
     \<and> integer_cents (mandate_checks a') = NA \<and> sync_integrity (mandate_checks a') = NA
     \<and> soft_deletes (mandate_checks a') = NA \<and> auth_abstraction (mandate_checks a') = PASS
     \<and> react_compiler (performance_checks a') = PASS
     \<and> re_render (performance_checks a') = PASS"
proof -
  have w: "source_names (walk_feature (feature_name (init fname)) d) = []"
    using assms by (simp add: init_def)
  have scan: "scan_files d (init fname) = Inr (init fname)"
    unfolding scan_files_def scan_walk_no_source [OF w] by (simp add: init_def)
  show ?thesis
    apply (rule exI [of _ "init fname"])
    apply (rule exI [of _ "final_auditor (init fname)"])
    apply (simp only: scan run_audits_init final_auditor_init)
    apply (simp add: init_def files_by_folder_def)
    done
qed

text \<open>
  C8 on \<open>assets_dir\<close>, whose files are a README, an image that cannot be decoded and a
  subdirectory that cannot be listed.
\<close>

theorem no_source_files_clean_report_witness:
  "source_names (walk_feature ''billing'' (Some assets_dir)) = []
   \<and> (\<exists>a a'. scan_files (Some assets_dir) (init ''billing'') = Inr a
     \<and> files a = [] \<and> files_by_folder (files a) = []
     \<and> run_audits a = Inr (a', [], [])
     \<and> issues a' = [] \<and> feature_bleed (stats a') = []
     \<and> naming (stats a') = PASS \<and> entity_registry (stats a') = PASS
     \<and> dependency_manifest (stats a') = PASS \<and> sacred_mandate (stats a') = PASS
     \<and> performance (stats a') = PASS
     \<and> integer_cents (mandate_checks a') = NA \<and> sync_integrity (mandate_checks a') = NA
     \<and> soft_deletes (mandate_checks a') = NA \<and> auth_abstraction (mandate_checks a') = PASS
     \<and> react_compiler (performance_checks a') = PASS
     \<and> re_render (performance_checks a') = PASS)"
proof -
  have h: "source_names (walk_feature ''billing'' (Some assets_dir)) = []"
    by code_simp
  from h no_source_files_clean_report [OF h] show ?thesis by (rule conjI)
qed





end
